theory Spec2Isabelle
  imports Main
begin

section \<open>The diff viewer's row model\<close>

text \<open>
  The component \<^verbatim>\<open>DiffViewer\<close> turns the result of a line diff into rows. A part of
  the diff result is an object with a text \<^verbatim>\<open>value\<close> and the flags \<^verbatim>\<open>added\<close> and
  \<^verbatim>\<open>removed\<close>; a row is \<^verbatim>\<open>{ oldIdx, newIdx, kind, text }\<close>, where an index is a
  number or \<^verbatim>\<open>null\<close> and the kind is one of the literals \<^verbatim>\<open>'add'\<close>, \<^verbatim>\<open>'del'\<close>,
  \<^verbatim>\<open>'equal'\<close> (the spec's added, removed, unchanged).
\<close>

abbreviation LF :: char where
  "LF \<equiv> CHR 0x0A"

abbreviation CR :: char where
  "CR \<equiv> CHR 0x0D"

record part =
  part_value :: string
  added :: bool
  removed :: bool

datatype kind = KAdd | KDel | KEqual

record row =
  oldIdx :: "nat option"
  newIdx :: "nat option"
  kind :: kind
  row_text :: string

subsection \<open>Strings\<close>

text \<open>
  \<^verbatim>\<open>s.split('\n')\<close>: the pieces of \<open>s\<close> between line feeds. The result is never
  empty: the empty string gives one empty piece. (The last case of the inner \<open>case\<close> is
  never taken; it is there because the function is total.)
\<close>

fun split_nl :: "string \<Rightarrow> string list" where
  "split_nl [] = [[]]"
| "split_nl (c # cs) =
     (if c = LF then [] # split_nl cs
      else (case split_nl cs of
              l # ls \<Rightarrow> (c # l) # ls
            | [] \<Rightarrow> [[c]]))"

text \<open>
  \<^verbatim>\<open>text.replace(/\r\n/g, '\n')\<close> and \<^verbatim>\<open>text.replace(/\r/g, '\n')\<close>, and their
  composition \<^verbatim>\<open>normalizeText\<close>.
\<close>

fun replace_crlf :: "string \<Rightarrow> string" where
  "replace_crlf (c # d # cs) =
     (if c = CR \<and> d = LF then LF # replace_crlf cs else c # replace_crlf (d # cs))"
| "replace_crlf cs = cs"

definition replace_cr :: "string \<Rightarrow> string" where
  "replace_cr cs = map (\<lambda>c. if c = CR then LF else c) cs"

definition normalizeText :: "string \<Rightarrow> string" where
  "normalizeText t = replace_cr (replace_crlf t)"

text \<open>
  \<^verbatim>\<open>oldLines\<close> and \<^verbatim>\<open>newLines\<close>: \<^verbatim>\<open>normalizeText(content).split('\n')\<close>. The
  component uses them for the width of the two number columns only.
\<close>

definition content_lines :: "string \<Rightarrow> string list" where
  "content_lines content = split_nl (normalizeText content)"

subsection \<open>\<^verbatim>\<open>getDiffRows\<close>\<close>

text \<open>
  The lines of one part:
  \<^verbatim>\<open>let lines = part.value.split('\n'); if (lines.at(-1) === '') lines.pop();\<close>
\<close>

definition part_lines :: "string \<Rightarrow> string list" where
  "part_lines v =
     (let lines = split_nl v
      in if lines \<noteq> [] \<and> last lines = [] then butlast lines else lines)"

text \<open>
  The body of the inner loop: the row for one line, and the two counters after it. The
  counters are the local variables \<^verbatim>\<open>oldIdx\<close> and \<^verbatim>\<open>newIdx\<close> of the source, called
  \<open>oldI\<close> and \<open>newI\<close> here because the rows' fields have those names. The source tests
  \<^verbatim>\<open>part.added\<close> first and \<^verbatim>\<open>part.removed\<close> second.
\<close>

definition make_row :: "part \<Rightarrow> string \<Rightarrow> nat \<Rightarrow> nat \<Rightarrow> row \<times> nat \<times> nat" where
  "make_row p line oldI newI =
     (if added p then
        (\<lparr>oldIdx = None, newIdx = Some newI, kind = KAdd, row_text = line\<rparr>, oldI, newI + 1)
      else if removed p then
        (\<lparr>oldIdx = Some oldI, newIdx = None, kind = KDel, row_text = line\<rparr>, oldI + 1, newI)
      else
        (\<lparr>oldIdx = Some oldI, newIdx = Some newI, kind = KEqual, row_text = line\<rparr>,
         oldI + 1, newI + 1))"

text \<open>\<^verbatim>\<open>for (const line of lines) { ...; rows.push(row); }\<close> on the state \<open>(rows, oldI, newI)\<close>.\<close>

fun line_loop :: "part \<Rightarrow> string list \<Rightarrow> row list \<times> nat \<times> nat \<Rightarrow> row list \<times> nat \<times> nat" where
  "line_loop p [] st = st"
| "line_loop p (line # lines) (rows, oldI, newI) =
     (case make_row p line oldI newI of
        (r, oldI', newI') \<Rightarrow> line_loop p lines (rows @ [r], oldI', newI'))"

text \<open>\<^verbatim>\<open>for (const part of lineDiff) { ... }\<close>\<close>

fun part_loop :: "part list \<Rightarrow> row list \<times> nat \<times> nat \<Rightarrow> row list \<times> nat \<times> nat" where
  "part_loop [] st = st"
| "part_loop (p # ps) st = part_loop ps (line_loop p (part_lines (part_value p)) st)"

text \<open>
  \<^verbatim>\<open>getDiffRows\<close> reads \<^verbatim>\<open>lineDiff\<close> from the enclosing component; here it is an
  argument. Both counters start at 1 and the row array starts empty.
\<close>

definition getDiffRows :: "part list \<Rightarrow> row list" where
  "getDiffRows lineDiff = fst (part_loop lineDiff ([], 1, 1))"

subsection \<open>\<^verbatim>\<open>getDiffRows\<close> on a store\<close>

text \<open>
  The same function with its arrays in a store, to see which objects it writes. The
  store is a list of objects and an address is a position in it; allocation appends. The
  arrays the function meets are \<^verbatim>\<open>lineDiff\<close> (an array of parts), the array
  \<^verbatim>\<open>lines\<close> that \<^verbatim>\<open>split\<close> returns for each part, and \<^verbatim>\<open>rows\<close>. The texts
  themselves are strings, which are values. An access to an address that holds no array of
  the expected kind is \<open>None\<close>.
\<close>

datatype obj = PartArr "part list" | StrArr "string list" | RowArr "row list"

type_synonym heap = "obj list"

definition alloc :: "obj \<Rightarrow> heap \<Rightarrow> nat \<times> heap" where
  "alloc v h = (length h, h @ [v])"

definition read_parts :: "nat \<Rightarrow> heap \<Rightarrow> part list option" where
  "read_parts a h =
     (if a < length h then (case h ! a of PartArr ps \<Rightarrow> Some ps | _ \<Rightarrow> None) else None)"

definition read_lines :: "nat \<Rightarrow> heap \<Rightarrow> string list option" where
  "read_lines a h =
     (if a < length h then (case h ! a of StrArr ls \<Rightarrow> Some ls | _ \<Rightarrow> None) else None)"

text \<open>\<^verbatim>\<open>if (lines.at(-1) === '') lines.pop();\<close> on the array at address \<open>a\<close>.\<close>

definition pop_empty_last :: "nat \<Rightarrow> heap \<Rightarrow> heap option" where
  "pop_empty_last a h =
     (case read_lines a h of
        None \<Rightarrow> None
      | Some ls \<Rightarrow> Some (if ls \<noteq> [] \<and> last ls = [] then h[a := StrArr (butlast ls)] else h))"

text \<open>\<^verbatim>\<open>rows.push(row)\<close> on the array at address \<open>a\<close>.\<close>

definition push_row :: "nat \<Rightarrow> row \<Rightarrow> heap \<Rightarrow> heap option" where
  "push_row a r h =
     (if a < length h
      then (case h ! a of RowArr rs \<Rightarrow> Some (h[a := RowArr (rs @ [r])]) | _ \<Rightarrow> None)
      else None)"

text \<open>
  The two loops and the function. The counters are local variables, so they are passed
  along; \<open>rows\<close> is the address of the row array. The function returns that address.
\<close>

fun line_loop_h :: "part \<Rightarrow> string list \<Rightarrow> nat \<Rightarrow> nat \<times> nat \<Rightarrow> heap \<Rightarrow> ((nat \<times> nat) \<times> heap) option" where
  "line_loop_h p [] rows c h = Some (c, h)"
| "line_loop_h p (line # lines) rows (oldI, newI) h =
     (case make_row p line oldI newI of
        (r, oldI', newI') \<Rightarrow>
          (case push_row rows r h of
             None \<Rightarrow> None
           | Some h' \<Rightarrow> line_loop_h p lines rows (oldI', newI') h'))"

fun part_loop_h :: "part list \<Rightarrow> nat \<Rightarrow> nat \<times> nat \<Rightarrow> heap \<Rightarrow> ((nat \<times> nat) \<times> heap) option" where
  "part_loop_h [] rows c h = Some (c, h)"
| "part_loop_h (p # ps) rows c h =
     (case alloc (StrArr (split_nl (part_value p))) h of
        (lines, h1) \<Rightarrow>
          (case pop_empty_last lines h1 of
             None \<Rightarrow> None
           | Some h2 \<Rightarrow>
               (case read_lines lines h2 of
                  None \<Rightarrow> None
                | Some ls \<Rightarrow>
                    (case line_loop_h p ls rows c h2 of
                       None \<Rightarrow> None
                     | Some (c', h3) \<Rightarrow> part_loop_h ps rows c' h3))))"

definition getDiffRows_h :: "nat \<Rightarrow> heap \<Rightarrow> (nat \<times> heap) option" where
  "getDiffRows_h lineDiff h =
     (case read_parts lineDiff h of
        None \<Rightarrow> None
      | Some ps \<Rightarrow>
          (case alloc (RowArr []) h of
             (rows, h1) \<Rightarrow>
               (case part_loop_h ps rows (1, 1) h1 of
                  None \<Rightarrow> None
                | Some (c, h2) \<Rightarrow> Some (rows, h2))))"

subsection \<open>The line diff\<close>

text \<open>
  The component computes \<^verbatim>\<open>lineDiff\<close> as
  \<^verbatim>\<open>diffLines(oldContent, newContent, { ignoreWhitespace: true })\<close>, a function of the
  package \<^verbatim>\<open>diff\<close>. The package is not among the sources of the repository, so the
  definitions of this subsection follow the spec's description of the primitive: "given
  two texts, return an ordered list of tagged text runs representing a minimal
  line-based edit script", where a part is "one contiguous run of lines classified as
  added, removed, or unchanged", "carries the literal concatenated text of that run" and
  is "a text blob whose lines are delimited by \<^verbatim>\<open>\n\<close>".
\<close>

text \<open>
  Modelled from the spec: the lines of a text as the diff sees them, each with the line
  feed that ends it; a text that ends with a line feed has no further line, and the empty
  text has none. A carriage return is an ordinary character of its line.
\<close>

fun tokenize :: "string \<Rightarrow> string list" where
  "tokenize [] = []"
| "tokenize (c # cs) =
     (if c = LF then [LF] # tokenize cs
      else (case tokenize cs of
              [] \<Rightarrow> [[c]]
            | t # ts \<Rightarrow> (c # t) # ts))"

text \<open>
  Modelled from the spec: the white space that the comparison of lines ignores (the six
  ASCII white-space characters).
\<close>

definition is_space :: "char \<Rightarrow> bool" where
  "is_space c = (c = CHR '' '' \<or> c = CHR 0x09 \<or> c = LF \<or> c = CHR 0x0B \<or> c = CHR 0x0C \<or> c = CR)"

text \<open>Modelled from the spec: a line without its leading and trailing white space.\<close>

definition trim :: "string \<Rightarrow> string" where
  "trim s = rev (dropWhile is_space (rev (dropWhile is_space s)))"

text \<open>
  Modelled from the spec: the comparison of two lines under \<^verbatim>\<open>ignoreWhitespace: true\<close>,
  taken as equality of the lines without their leading and trailing white space.
\<close>

definition same_line :: "string \<Rightarrow> string \<Rightarrow> bool" where
  "same_line a b = (trim a = trim b)"

text \<open>Modelled from the spec: a removed part with the text \<open>v\<close>.\<close>

definition removed_part :: "string \<Rightarrow> part" where
  "removed_part v = \<lparr>part_value = v, added = False, removed = True\<rparr>"

text \<open>Modelled from the spec: an added part with the text \<open>v\<close>.\<close>

definition added_part :: "string \<Rightarrow> part" where
  "added_part v = \<lparr>part_value = v, added = True, removed = False\<rparr>"

text \<open>Modelled from the spec: an unchanged part with the text \<open>v\<close>.\<close>

definition common_part :: "string \<Rightarrow> part" where
  "common_part v = \<lparr>part_value = v, added = False, removed = False\<rparr>"

text \<open>Modelled from the spec: the number of added and removed parts of an edit script.\<close>

definition changes :: "part list \<Rightarrow> nat" where
  "changes ps = length (filter (\<lambda>p. added p \<or> removed p) ps)"

text \<open>
  Modelled from the spec: an edit script with the fewest added and removed lines, one part
  per line. Lines that are the same at the front of both texts are unchanged; otherwise
  the script removes the old line or adds the new one, whichever leaves fewer changes, and
  removes first when both leave as many. An unchanged part carries the new text's line.
\<close>

fun edit_script :: "string list \<Rightarrow> string list \<Rightarrow> part list" where
  "edit_script [] ys = map added_part ys"
| "edit_script xs [] = map removed_part xs"
| "edit_script (x # xs) (y # ys) =
     (if same_line x y then common_part y # edit_script xs ys
      else (let del = removed_part x # edit_script xs (y # ys);
                ins = added_part y # edit_script (x # xs) ys
            in if changes del \<le> changes ins then del else ins))"

text \<open>
  Modelled from the spec: neighbouring parts with the same tag become one part, which
  carries the concatenated text of the run.
\<close>

fun join_runs :: "part list \<Rightarrow> part list" where
  "join_runs [] = []"
| "join_runs (p # ps) =
     (case join_runs ps of
        [] \<Rightarrow> [p]
      | q # qs \<Rightarrow>
          (if added p = added q \<and> removed p = removed q
           then q\<lparr>part_value := part_value p @ part_value q\<rparr> # qs
           else p # q # qs))"

text \<open>Modelled from the spec: the line diff of two texts.\<close>

definition diffLines :: "string \<Rightarrow> string \<Rightarrow> part list" where
  "diffLines oldStr newStr = join_runs (edit_script (tokenize oldStr) (tokenize newStr))"

text \<open>
  The rows of the component: \<^verbatim>\<open>getDiffRows()\<close> with \<^verbatim>\<open>lineDiff\<close> computed from the
  two contents.
\<close>

definition DiffViewer_rows :: "string \<Rightarrow> string \<Rightarrow> row list" where
  "DiffViewer_rows oldContent newContent = getDiffRows (diffLines oldContent newContent)"

subsection \<open>Reading a row sequence\<close>

text \<open>The indices that are present on each side, in row order.\<close>

definition old_indices :: "row list \<Rightarrow> nat list" where
  "old_indices rs = List.map_filter oldIdx rs"

definition new_indices :: "row list \<Rightarrow> nat list" where
  "new_indices rs = List.map_filter newIdx rs"

text \<open>
  The rows of the lines of one part and of a list of parts, as functions of the counters
  at the start; the number of lines by which a part moves each counter.
\<close>

fun line_rows :: "part \<Rightarrow> string list \<Rightarrow> nat \<Rightarrow> nat \<Rightarrow> row list" where
  "line_rows p [] oldI newI = []"
| "line_rows p (line # lines) oldI newI =
     (case make_row p line oldI newI of
        (r, oldI', newI') \<Rightarrow> r # line_rows p lines oldI' newI')"

definition old_step :: "part \<Rightarrow> nat" where
  "old_step p = (if added p then 0 else length (part_lines (part_value p)))"

definition new_step :: "part \<Rightarrow> nat" where
  "new_step p =
     (if added p \<or> \<not> removed p then length (part_lines (part_value p)) else 0)"

fun part_rows :: "part list \<Rightarrow> nat \<Rightarrow> nat \<Rightarrow> row list" where
  "part_rows [] oldI newI = []"
| "part_rows (p # ps) oldI newI =
     line_rows p (part_lines (part_value p)) oldI newI
       @ part_rows ps (oldI + old_step p) (newI + new_step p)"

text \<open>
  A line of a text: not empty, with no line feed before its last character. A list of
  lines in which every line but the last ends with a line feed.
\<close>

definition is_tok :: "string \<Rightarrow> bool" where
  "is_tok t = (t \<noteq> [] \<and> LF \<notin> set (butlast t))"

definition ends_nl :: "string \<Rightarrow> bool" where
  "ends_nl t = (t \<noteq> [] \<and> last t = LF)"

fun lines_ok :: "string list \<Rightarrow> bool" where
  "lines_ok [] = True"
| "lines_ok (t # ts) = (is_tok t \<and> (ts = [] \<or> ends_nl t) \<and> lines_ok ts)"

text \<open>
  Parts with the same tag; a list of one-line parts in which a part that does not end
  with a line feed is not followed by a part with its tag; a part that is neither added
  nor removed.
\<close>

definition same_flags :: "part \<Rightarrow> part \<Rightarrow> bool" where
  "same_flags p q = (added p = added q \<and> removed p = removed q)"

fun runs_ok :: "part list \<Rightarrow> bool" where
  "runs_ok [] = True"
| "runs_ok (p # ps) =
     (is_tok (part_value p) \<and>
      (ends_nl (part_value p) \<or> (case ps of [] \<Rightarrow> True | q # _ \<Rightarrow> \<not> same_flags p q)) \<and>
      runs_ok ps)"

definition common :: "part \<Rightarrow> bool" where
  "common p = (\<not> added p \<and> \<not> removed p)"

text \<open>Diff results used as examples.\<close>

definition three_parts :: "part list" where
  "three_parts =
     [\<lparr>part_value = ''Old'' @ [LF], added = False, removed = True\<rparr>,
      \<lparr>part_value = ''New'' @ [LF], added = True, removed = False\<rparr>,
      \<lparr>part_value = ''Content'', added = False, removed = False\<rparr>]"

definition crlf_parts :: "part list" where
  "crlf_parts =
     [\<lparr>part_value = ''Old'' @ [CR, LF], added = False, removed = True\<rparr>,
      \<lparr>part_value = ''New'' @ [LF], added = True, removed = False\<rparr>,
      \<lparr>part_value = ''Content'', added = False, removed = False\<rparr>]"

definition empty_common :: part where
  "empty_common = \<lparr>part_value = [], added = False, removed = False\<rparr>"

section \<open>The loops\<close>

lemma line_loop_rows:
  "line_loop p ls (rows, oldI, newI) =
     (rows @ line_rows p ls oldI newI,
      oldI + (if added p then 0 else length ls),
      newI + (if added p \<or> \<not> removed p then length ls else 0))"
  by (induction ls arbitrary: rows oldI newI) (auto simp: make_row_def)

lemma part_loop_rows:
  "part_loop ps (rows, oldI, newI) =
     (rows @ part_rows ps oldI newI,
      oldI + sum_list (map old_step ps),
      newI + sum_list (map new_step ps))"
proof (induction ps arbitrary: rows oldI newI)
  case Nil
  show ?case by simp
next
  case (Cons p ps)
  show ?case
    by (simp add: line_loop_rows Cons.IH old_step_def new_step_def)
qed

lemma getDiffRows_part_rows: "getDiffRows ps = part_rows ps 1 1"
  by (simp add: getDiffRows_def part_loop_rows)

lemma part_loop_append: "part_loop (ps @ qs) st = part_loop qs (part_loop ps st)"
  by (induction ps arbitrary: st) simp_all

lemma part_lines_Nil: "part_lines [] = []"
  by (simp add: part_lines_def)

subsection \<open>The indices of the rows\<close>

lemma old_indices_Nil: "old_indices [] = []"
  by (simp add: old_indices_def List.map_filter_simps)

lemma new_indices_Nil: "new_indices [] = []"
  by (simp add: new_indices_def List.map_filter_simps)

lemma old_indices_Cons:
  "old_indices (r # rs) =
     (case oldIdx r of None \<Rightarrow> old_indices rs | Some i \<Rightarrow> i # old_indices rs)"
  by (simp add: old_indices_def List.map_filter_simps split: option.split)

lemma new_indices_Cons:
  "new_indices (r # rs) =
     (case newIdx r of None \<Rightarrow> new_indices rs | Some i \<Rightarrow> i # new_indices rs)"
  by (simp add: new_indices_def List.map_filter_simps split: option.split)

lemma old_indices_append: "old_indices (xs @ ys) = old_indices xs @ old_indices ys"
  by (simp add: old_indices_def List.map_filter_def)

lemma new_indices_append: "new_indices (xs @ ys) = new_indices xs @ new_indices ys"
  by (simp add: new_indices_def List.map_filter_def)

lemma length_old_indices:
  "length (old_indices rs) = length (filter (\<lambda>r. oldIdx r \<noteq> None) rs)"
  by (simp add: old_indices_def List.map_filter_def)

lemma length_new_indices:
  "length (new_indices rs) = length (filter (\<lambda>r. newIdx r \<noteq> None) rs)"
  by (simp add: new_indices_def List.map_filter_def)

lemma old_indices_line_rows:
  "old_indices (line_rows p ls a b) = (if added p then [] else [a ..< a + length ls])"
  by (induction ls arbitrary: a b)
     (auto simp: make_row_def old_indices_Cons old_indices_Nil upt_rec)

lemma new_indices_line_rows:
  "new_indices (line_rows p ls a b) =
     (if added p \<or> \<not> removed p then [b ..< b + length ls] else [])"
  by (induction ls arbitrary: a b)
     (auto simp: make_row_def new_indices_Cons new_indices_Nil upt_rec)

lemma old_indices_part_lines:
  "old_indices (line_rows p (part_lines (part_value p)) a b) = [a ..< a + old_step p]"
  by (simp add: old_indices_line_rows old_step_def)

lemma new_indices_part_lines:
  "new_indices (line_rows p (part_lines (part_value p)) a b) = [b ..< b + new_step p]"
  by (simp add: new_indices_line_rows new_step_def)

lemma upt_join: "[a ..< a + m] @ [a + m ..< a + m + n] = [a ..< a + m + (n::nat)]"
  by (metis le_add1 upt_add_eq_append)

lemma old_indices_part_rows:
  "old_indices (part_rows ps a b) = [a ..< a + sum_list (map old_step ps)]"
proof (induction ps arbitrary: a b)
  case Nil
  show ?case by (simp add: old_indices_Nil)
next
  case (Cons p ps)
  show ?case
    by (simp add: old_indices_append old_indices_part_lines Cons.IH upt_join
          add.assoc [symmetric])
qed

lemma new_indices_part_rows:
  "new_indices (part_rows ps a b) = [b ..< b + sum_list (map new_step ps)]"
proof (induction ps arbitrary: a b)
  case Nil
  show ?case by (simp add: new_indices_Nil)
next
  case (Cons p ps)
  show ?case
    by (simp add: new_indices_append new_indices_part_lines Cons.IH upt_join
          add.assoc [symmetric])
qed

lemma old_indices_getDiffRows:
  "old_indices (getDiffRows lineDiff) = [1 ..< 1 + sum_list (map old_step lineDiff)]"
  by (simp only: getDiffRows_part_rows old_indices_part_rows)

lemma new_indices_getDiffRows:
  "new_indices (getDiffRows lineDiff) = [1 ..< 1 + sum_list (map new_step lineDiff)]"
  by (simp only: getDiffRows_part_rows new_indices_part_rows)

text \<open>
  The number of rows with an old index is the number of lines of the parts that are not
  marked added; the number of rows with a new index is the number of lines of the parts
  that are marked added or not marked removed.
\<close>

lemma count_old_getDiffRows:
  "length (filter (\<lambda>r. oldIdx r \<noteq> None) (getDiffRows lineDiff))
     = sum_list (map old_step lineDiff)"
  by (simp only: length_old_indices [symmetric] old_indices_getDiffRows length_upt
        add_diff_cancel_left')

lemma count_new_getDiffRows:
  "length (filter (\<lambda>r. newIdx r \<noteq> None) (getDiffRows lineDiff))
     = sum_list (map new_step lineDiff)"
  by (simp only: length_new_indices [symmetric] new_indices_getDiffRows length_upt
        add_diff_cancel_left')

subsection \<open>The shape of a row\<close>

lemma row_shape_line_rows:
  "r \<in> set (line_rows p ls a b) \<Longrightarrow>
     (kind r = KAdd \<longrightarrow> oldIdx r = None \<and> newIdx r \<noteq> None) \<and>
     (kind r = KDel \<longrightarrow> newIdx r = None \<and> oldIdx r \<noteq> None) \<and>
     (kind r = KEqual \<longrightarrow> oldIdx r \<noteq> None \<and> newIdx r \<noteq> None) \<and>
     \<not> (oldIdx r = None \<and> newIdx r = None)"
  by (induction ls arbitrary: a b) (auto simp: make_row_def split: if_splits)

lemma row_shape_part_rows:
  "r \<in> set (part_rows ps a b) \<Longrightarrow>
     (kind r = KAdd \<longrightarrow> oldIdx r = None \<and> newIdx r \<noteq> None) \<and>
     (kind r = KDel \<longrightarrow> newIdx r = None \<and> oldIdx r \<noteq> None) \<and>
     (kind r = KEqual \<longrightarrow> oldIdx r \<noteq> None \<and> newIdx r \<noteq> None) \<and>
     \<not> (oldIdx r = None \<and> newIdx r = None)"
proof (induction ps arbitrary: a b)
  case Nil
  then show ?case by simp
next
  case (Cons p ps)
  from Cons.prems consider
    "r \<in> set (line_rows p (part_lines (part_value p)) a b)"
    | "r \<in> set (part_rows ps (a + old_step p) (b + new_step p))"
    by auto
  then show ?case
  proof cases
    case 1
    then show ?thesis by (rule row_shape_line_rows)
  next
    case 2
    then show ?thesis by (rule Cons.IH)
  qed
qed

lemma line_rows_common:
  "common p \<Longrightarrow> r \<in> set (line_rows p ls a a) \<Longrightarrow> kind r = KEqual \<and> oldIdx r = newIdx r"
  by (induction ls arbitrary: a) (auto simp: make_row_def common_def)

lemma steps_common: "common p \<Longrightarrow> old_step p = new_step p"
  by (simp add: common_def old_step_def new_step_def)

lemma part_rows_common:
  "list_all common ps \<Longrightarrow> r \<in> set (part_rows ps a a) \<Longrightarrow>
     kind r = KEqual \<and> oldIdx r = newIdx r"
proof (induction ps arbitrary: a)
  case Nil
  then show ?case by simp
next
  case (Cons p ps)
  from Cons.prems(1) have p: "common p" and ps: "list_all common ps" by simp_all
  from Cons.prems(2) consider
    "r \<in> set (line_rows p (part_lines (part_value p)) a a)"
    | "r \<in> set (part_rows ps (a + new_step p) (a + new_step p))"
    by (auto simp: steps_common [OF p])
  then show ?case
  proof cases
    case 1
    with p show ?thesis by (rule line_rows_common)
  next
    case 2
    with ps show ?thesis by (rule Cons.IH)
  qed
qed

lemma part_rows_empty_values:
  "\<forall>p \<in> set ps. part_value p = [] \<Longrightarrow> part_rows ps a b = []"
  by (induction ps arbitrary: a b) (simp_all add: part_lines_Nil old_step_def new_step_def)

subsection \<open>The loops on a store\<close>

lemma line_loop_h_rows:
  "a < length h \<Longrightarrow> h ! a = RowArr rs \<Longrightarrow>
   line_loop_h p ls a (oldI, newI) h =
     Some ((oldI + (if added p then 0 else length ls),
            newI + (if added p \<or> \<not> removed p then length ls else 0)),
           h[a := RowArr (rs @ line_rows p ls oldI newI)])"
proof (induction ls arbitrary: rs oldI newI h)
  case Nil
  then have "h[a := RowArr rs] = h" by (metis list_update_id)
  then show ?case by simp
next
  case (Cons l ls)
  obtain r o' n' where mr: "make_row p l oldI newI = (r, o', n')"
    by (cases "make_row p l oldI newI") auto
  let ?h = "h[a := RowArr (rs @ [r])]"
  have push: "push_row a r h = Some ?h"
    using Cons.prems by (simp add: push_row_def)
  have "a < length ?h" "?h ! a = RowArr (rs @ [r])"
    using Cons.prems by simp_all
  from Cons.IH [OF this]
  have "line_loop_h p ls a (o', n') ?h =
     Some ((o' + (if added p then 0 else length ls),
            n' + (if added p \<or> \<not> removed p then length ls else 0)),
           ?h[a := RowArr ((rs @ [r]) @ line_rows p ls o' n')])" .
  moreover have "o' = oldI + (if added p then 0 else 1)"
    "n' = newI + (if added p \<or> \<not> removed p then 1 else 0)"
    using mr by (auto simp: make_row_def split: if_splits)
  ultimately show ?case using mr push by simp
qed

lemma part_loop_h_rows:
  "a < length h \<Longrightarrow> h ! a = RowArr rs \<Longrightarrow>
   \<exists>c h'. part_loop_h ps a (oldI, newI) h = Some (c, h') \<and>
     length h \<le> length h' \<and>
     h' ! a = RowArr (rs @ part_rows ps oldI newI) \<and>
     (\<forall>i < length h. i \<noteq> a \<longrightarrow> h' ! i = h ! i)"
proof (induction ps arbitrary: rs oldI newI h)
  case Nil
  then show ?case by simp
next
  case (Cons p ps)
  let ?v = "part_value p"
  let ?lines = "length h"
  let ?h1 = "h @ [StrArr (split_nl ?v)]"
  let ?h2 = "?h1[?lines := StrArr (part_lines ?v)]"
  have al: "alloc (StrArr (split_nl ?v)) h = (?lines, ?h1)" by (simp add: alloc_def)
  have pop: "pop_empty_last ?lines ?h1 = Some ?h2"
    by (simp add: pop_empty_last_def read_lines_def part_lines_def list_update_same_conv)
  have rd: "read_lines ?lines ?h2 = Some (part_lines ?v)"
    by (simp add: read_lines_def)
  have a2: "a < length ?h2" and ra: "?h2 ! a = RowArr rs"
    using Cons.prems by (simp_all add: nth_append)
  let ?o = "oldI + old_step p" and ?n = "newI + new_step p"
  let ?h3 = "?h2[a := RowArr (rs @ line_rows p (part_lines ?v) oldI newI)]"
  have ll: "line_loop_h p (part_lines ?v) a (oldI, newI) ?h2 = Some ((?o, ?n), ?h3)"
    using line_loop_h_rows [OF a2 ra, of p "part_lines ?v" oldI newI]
    by (simp add: old_step_def new_step_def)
  have a3: "a < length ?h3" and r3: "?h3 ! a = RowArr (rs @ line_rows p (part_lines ?v) oldI newI)"
    using Cons.prems by simp_all
  from Cons.IH [OF a3 r3, of ?o ?n] obtain c h' where
    run: "part_loop_h ps a (?o, ?n) ?h3 = Some (c, h')" and
    len: "length ?h3 \<le> length h'" and
    res: "h' ! a = RowArr ((rs @ line_rows p (part_lines ?v) oldI newI) @ part_rows ps ?o ?n)" and
    frame: "\<forall>i < length ?h3. i \<noteq> a \<longrightarrow> h' ! i = ?h3 ! i"
    by blast
  have "part_loop_h (p # ps) a (oldI, newI) h = Some (c, h')"
    using al pop rd ll run by (simp del: list_update_append1)
  moreover have "length h \<le> length h'" using len by simp
  moreover have "h' ! a = RowArr (rs @ part_rows (p # ps) oldI newI)" using res by simp
  moreover have "\<forall>i < length h. i \<noteq> a \<longrightarrow> h' ! i = h ! i"
  proof (intro allI impI)
    fix i assume i: "i < length h" "i \<noteq> a"
    then have "h' ! i = ?h3 ! i" using frame by simp
    also have "\<dots> = h ! i" using i by (simp add: nth_append)
    finally show "h' ! i = h ! i" .
  qed
  ultimately show ?case by blast
qed

text \<open>
  On a store that holds the parts at \<open>lineDiff\<close>, the function returns a new address
  that holds the rows of \<open>getDiffRows\<close>, and the objects that were in the store are
  as they were.
\<close>

lemma getDiffRows_h_correct:
  assumes "lineDiff < length h" and "h ! lineDiff = PartArr ps"
  shows "\<exists>rows h'. getDiffRows_h lineDiff h = Some (rows, h') \<and>
           length h \<le> rows \<and> rows < length h' \<and>
           h' ! rows = RowArr (getDiffRows ps) \<and>
           take (length h) h' = h"
proof -
  let ?rows = "length h"
  let ?h1 = "h @ [RowArr []]"
  have rp: "read_parts lineDiff h = Some ps"
    using assms by (simp add: read_parts_def)
  have "?rows < length ?h1" "?h1 ! ?rows = RowArr []" by simp_all
  from part_loop_h_rows [OF this, of ps 1 1] obtain c h' where
    run: "part_loop_h ps ?rows (1, 1) ?h1 = Some (c, h')" and
    len: "length ?h1 \<le> length h'" and
    res: "h' ! ?rows = RowArr ([] @ part_rows ps 1 1)" and
    frame: "\<forall>i < length ?h1. i \<noteq> ?rows \<longrightarrow> h' ! i = ?h1 ! i"
    by blast
  have "getDiffRows_h lineDiff h = Some (?rows, h')"
    using rp run by (simp add: getDiffRows_h_def alloc_def)
  moreover have "?rows < length h'" using len by simp
  moreover have "h' ! ?rows = RowArr (getDiffRows ps)"
    using res by (simp add: getDiffRows_part_rows)
  moreover have "take (length h) h' = h"
  proof (rule nth_equalityI)
    show "length (take (length h) h') = length h" using len by simp
  next
    fix i assume "i < length (take (length h) h')"
    then have i: "i < length h" by simp
    then have "h' ! i = ?h1 ! i" using frame by simp
    with i show "take (length h) h' ! i = h ! i" by (simp add: nth_append)
  qed
  ultimately show ?thesis by blast
qed

subsection \<open>Lines of a text\<close>

lemma split_nl_nonempty: "split_nl s \<noteq> []"
  by (induction s) (auto split: list.splits)

lemma tokenize_Nil_iff: "tokenize s = [] \<longleftrightarrow> s = []"
  by (cases s) (auto split: list.splits)

lemma split_nl_single: "split_nl s = [l] \<Longrightarrow> l = s"
  by (induction s arbitrary: l) (auto simp: split_nl_nonempty split: if_splits list.splits)

lemma length_tokenize_split:
  "length (tokenize s) =
     (if last (split_nl s) = [] then length (split_nl s) - 1 else length (split_nl s))"
proof (induction s)
  case Nil
  show ?case by simp
next
  case (Cons c cs)
  show ?case
  proof (cases "c = LF")
    case True
    have "length (split_nl cs) \<ge> 1"
      using split_nl_nonempty [of cs] by (cases "split_nl cs") auto
    with True Cons.IH show ?thesis
      by (auto simp: split_nl_nonempty)
  next
    case False
    obtain l ls where sp: "split_nl cs = l # ls"
      using split_nl_nonempty [of cs] by (cases "split_nl cs") auto
    show ?thesis
    proof (cases "cs = []")
      case True
      with False show ?thesis by simp
    next
      case cs: False
      then obtain t ts where tk: "tokenize cs = t # ts"
        using tokenize_Nil_iff [of cs] by (cases "tokenize cs") auto
      show ?thesis
      proof (cases "ls = []")
        case True
        with sp have "l = cs" by (simp add: split_nl_single)
        with cs True sp False tk Cons.IH show ?thesis by simp
      next
        case ls: False
        with sp False tk Cons.IH show ?thesis by simp
      qed
    qed
  qed
qed

lemma length_part_lines: "length (part_lines v) = length (tokenize v)"
  by (simp add: part_lines_def Let_def length_tokenize_split split_nl_nonempty)

lemma tokenize_append:
  "ends_nl v \<Longrightarrow> tokenize (v @ w) = tokenize v @ tokenize w"
proof (induction v)
  case Nil
  then show ?case by (simp add: ends_nl_def)
next
  case (Cons c v)
  show ?case
  proof (cases "v = []")
    case True
    with Cons.prems show ?thesis by (simp add: ends_nl_def)
  next
    case False
    with Cons.prems have "ends_nl v" by (simp add: ends_nl_def)
    then have ih: "tokenize (v @ w) = tokenize v @ tokenize w" by (rule Cons.IH)
    from False obtain t ts where "tokenize v = t # ts"
      using tokenize_Nil_iff [of v] by (cases "tokenize v") auto
    with ih show ?thesis by simp
  qed
qed

lemma tokenize_tok: "is_tok t \<Longrightarrow> tokenize t = [t]"
proof (induction t)
  case Nil
  then show ?case by (simp add: is_tok_def)
next
  case (Cons c t)
  show ?case
  proof (cases "t = []")
    case True
    then show ?thesis by simp
  next
    case False
    with Cons.prems have "c \<noteq> LF" and "is_tok t" by (auto simp: is_tok_def)
    with Cons.IH show ?thesis by simp
  qed
qed

lemma lines_ok_tokenize: "lines_ok (tokenize s)"
proof (induction s)
  case Nil
  show ?case by simp
next
  case (Cons c cs)
  show ?case
  proof (cases "c = LF")
    case True
    with Cons.IH show ?thesis by (simp add: is_tok_def ends_nl_def)
  next
    case False
    show ?thesis
    proof (cases "tokenize cs")
      case Nil
      with False show ?thesis by (simp add: is_tok_def)
    next
      case (Cons t ts)
      with Cons.IH have "is_tok t" "ts = [] \<or> ends_nl t" "lines_ok ts" by simp_all
      with False Cons show ?thesis by (auto simp: is_tok_def ends_nl_def)
    qed
  qed
qed

subsection \<open>The line diff keeps the lines of both texts\<close>

lemma part_value_mk [simp]:
  "part_value (common_part v) = v" "part_value (added_part v) = v"
  "part_value (removed_part v) = v"
  by (simp_all add: common_part_def added_part_def removed_part_def)

lemma old_step_tokens: "old_step p = (if added p then 0 else length (tokenize (part_value p)))"
  by (simp add: old_step_def length_part_lines)

lemma new_step_tokens:
  "new_step p = (if added p \<or> \<not> removed p then length (tokenize (part_value p)) else 0)"
  by (simp add: new_step_def length_part_lines)

lemma join_runs_head:
  "join_runs (p # ps) \<noteq> [] \<and> same_flags p (hd (join_runs (p # ps)))"
  by (auto simp: same_flags_def split: list.splits)

lemma join_runs_Nil_iff: "join_runs ps = [] \<longleftrightarrow> ps = []"
  by (cases ps) (auto split: list.splits)

lemma same_flags_trans: "same_flags p q \<Longrightarrow> same_flags q r \<Longrightarrow> same_flags p r"
  by (simp add: same_flags_def)

lemma same_flags_sym: "same_flags p q \<Longrightarrow> same_flags q p"
  by (simp add: same_flags_def)

lemma old_step_join_runs:
  "runs_ok ps \<Longrightarrow> sum_list (map old_step (join_runs ps)) = sum_list (map old_step ps)"
proof (induction ps)
  case Nil
  show ?case by simp
next
  case (Cons p ps)
  from Cons.prems have ok: "runs_ok ps" by simp
  then have ih: "sum_list (map old_step (join_runs ps)) = sum_list (map old_step ps)"
    by (rule Cons.IH)
  show ?case
  proof (cases "join_runs ps")
    case Nil
    then have "ps = []" by (simp add: join_runs_Nil_iff)
    then show ?thesis by simp
  next
    case (Cons q qs)
    then obtain p' ps' where ps: "ps = p' # ps'"
      using join_runs_Nil_iff [of ps] by (cases ps) auto
    have hd: "same_flags p' q"
      using join_runs_head [of p' ps'] Cons ps by simp
    show ?thesis
    proof (cases "same_flags p q")
      case True
      with hd have "same_flags p p'" by (blast intro: same_flags_trans same_flags_sym)
      with Cons.prems ps have e: "ends_nl (part_value p)" by simp
      have "old_step (q\<lparr>part_value := part_value p @ part_value q\<rparr>) = old_step p + old_step q"
        using True by (simp add: old_step_tokens tokenize_append [OF e] same_flags_def)
      with True Cons ih show ?thesis by (simp add: same_flags_def)
    next
      case False
      with Cons ih show ?thesis by (auto simp: same_flags_def)
    qed
  qed
qed

lemma new_step_join_runs:
  "runs_ok ps \<Longrightarrow> sum_list (map new_step (join_runs ps)) = sum_list (map new_step ps)"
proof (induction ps)
  case Nil
  show ?case by simp
next
  case (Cons p ps)
  from Cons.prems have ok: "runs_ok ps" by simp
  then have ih: "sum_list (map new_step (join_runs ps)) = sum_list (map new_step ps)"
    by (rule Cons.IH)
  show ?case
  proof (cases "join_runs ps")
    case Nil
    then have "ps = []" by (simp add: join_runs_Nil_iff)
    then show ?thesis by simp
  next
    case (Cons q qs)
    then obtain p' ps' where ps: "ps = p' # ps'"
      using join_runs_Nil_iff [of ps] by (cases ps) auto
    have hd: "same_flags p' q"
      using join_runs_head [of p' ps'] Cons ps by simp
    show ?thesis
    proof (cases "same_flags p q")
      case True
      with hd have "same_flags p p'" by (blast intro: same_flags_trans same_flags_sym)
      with Cons.prems ps have e: "ends_nl (part_value p)" by simp
      have "new_step (q\<lparr>part_value := part_value p @ part_value q\<rparr>) = new_step p + new_step q"
        using True by (simp add: new_step_tokens tokenize_append [OF e] same_flags_def)
      with True Cons ih show ?thesis by (simp add: same_flags_def)
    next
      case False
      with Cons ih show ?thesis by (auto simp: same_flags_def)
    qed
  qed
qed

lemma old_step_single:
  "runs_ok ps \<Longrightarrow> sum_list (map old_step ps) = length (filter (\<lambda>p. \<not> added p) ps)"
  by (induction ps) (auto simp: old_step_tokens tokenize_tok)

lemma new_step_single:
  "runs_ok ps \<Longrightarrow>
     sum_list (map new_step ps) = length (filter (\<lambda>p. added p \<or> \<not> removed p) ps)"
  by (induction ps) (auto simp: new_step_tokens tokenize_tok)

lemma runs_ok_added: "lines_ok ys \<Longrightarrow> runs_ok (map added_part ys)"
  by (induction ys) (auto simp: added_part_def split: list.splits)

lemma runs_ok_removed: "lines_ok xs \<Longrightarrow> runs_ok (map removed_part xs)"
  by (induction xs) (auto simp: removed_part_def split: list.splits)

lemma edit_script_Nil2: "edit_script xs [] = map removed_part xs"
  by (cases xs) simp_all

lemma runs_ok_edit_script:
  "lines_ok xs \<Longrightarrow> lines_ok ys \<Longrightarrow> runs_ok (edit_script xs ys)"
proof (induction xs ys rule: edit_script.induct)
  case (1 ys)
  then show ?case by (simp add: runs_ok_added)
next
  case (2 x xs)
  then show ?case using runs_ok_removed [of "x # xs"] by simp
next
  case (3 x xs y ys)
  from "3.prems" have tx: "is_tok x" and ty: "is_tok y"
    and lx: "lines_ok xs" and ly: "lines_ok ys"
    and ex: "xs = [] \<or> ends_nl x" and ey: "ys = [] \<or> ends_nl y" by simp_all
  show ?case
  proof (cases "same_line x y")
    case True
    have rest: "runs_ok (edit_script xs ys)"
      using "3.IH"(1) [OF True lx ly] .
    have "ends_nl y \<or> (case edit_script xs ys of [] \<Rightarrow> True | q # _ \<Rightarrow> \<not> same_flags (common_part y) q)"
      using ey by (cases xs) (auto simp: edit_script_Nil2 common_part_def removed_part_def same_flags_def)
    with True ty rest show ?thesis by simp
  next
    case False
    have del: "runs_ok (removed_part x # edit_script xs (y # ys))"
    proof -
      have rest: "runs_ok (edit_script xs (y # ys))"
        using "3.IH"(2) False lx "3.prems"(2) by blast
      have "ends_nl x \<or> (case edit_script xs (y # ys) of [] \<Rightarrow> True | q # _ \<Rightarrow> \<not> same_flags (removed_part x) q)"
        using ex by (auto simp: added_part_def removed_part_def same_flags_def)
      with tx rest show ?thesis by simp
    qed
    have ins: "runs_ok (added_part y # edit_script (x # xs) ys)"
    proof -
      have rest: "runs_ok (edit_script (x # xs) ys)"
        using "3.IH"(3) False "3.prems"(1) ly by blast
      have "ends_nl y \<or> (case edit_script (x # xs) ys of [] \<Rightarrow> True | q # _ \<Rightarrow> \<not> same_flags (added_part y) q)"
        using ey by (auto simp: added_part_def removed_part_def same_flags_def)
      with ty rest show ?thesis by simp
    qed
    from False del ins show ?thesis by (simp add: Let_def)
  qed
qed

lemma edit_script_old:
  "length (filter (\<lambda>p. \<not> added p) (edit_script xs ys)) = length xs"
  by (induction xs ys rule: edit_script.induct)
     (auto simp: Let_def added_part_def removed_part_def common_part_def filter_map comp_def)

lemma edit_script_new:
  "length (filter (\<lambda>p. added p \<or> \<not> removed p) (edit_script xs ys)) = length ys"
  by (induction xs ys rule: edit_script.induct)
     (auto simp: Let_def added_part_def removed_part_def common_part_def filter_map comp_def)

lemma diffLines_steps:
  "sum_list (map old_step (diffLines oldStr newStr)) = length (tokenize oldStr) \<and>
   sum_list (map new_step (diffLines oldStr newStr)) = length (tokenize newStr)"
proof -
  let ?s = "edit_script (tokenize oldStr) (tokenize newStr)"
  have ok: "runs_ok ?s"
    by (rule runs_ok_edit_script) (rule lines_ok_tokenize)+
  have "sum_list (map old_step (diffLines oldStr newStr)) = length (tokenize oldStr)"
    by (simp only: diffLines_def old_step_join_runs [OF ok] old_step_single [OF ok]
          edit_script_old)
  moreover
  have "sum_list (map new_step (diffLines oldStr newStr)) = length (tokenize newStr)"
    by (simp only: diffLines_def new_step_join_runs [OF ok] new_step_single [OF ok]
          edit_script_new)
  ultimately show ?thesis by simp
qed

lemma DiffViewer_rows_nonempty:
  assumes "t \<noteq> []"
  shows "DiffViewer_rows t u \<noteq> []"
proof
  assume "DiffViewer_rows t u = []"
  then have "length (filter (\<lambda>r. oldIdx r \<noteq> None) (getDiffRows (diffLines t u))) = 0"
    by (simp add: DiffViewer_rows_def)
  then have "length (tokenize t) = 0"
    by (simp only: count_old_getDiffRows diffLines_steps)
  with assms show False by (simp add: tokenize_Nil_iff)
qed

subsection \<open>The line diff of a text with itself\<close>

lemma same_line_refl: "same_line x x"
  by (simp add: same_line_def)

lemma edit_script_same: "edit_script xs xs = map common_part xs"
  by (induction xs) (simp_all add: same_line_refl)

lemma join_runs_common: "list_all common ps \<Longrightarrow> list_all common (join_runs ps)"
  by (induction ps) (auto simp: common_def split: list.splits)

lemma diffLines_same_common: "list_all common (diffLines t t)"
  unfolding diffLines_def edit_script_same
  by (rule join_runs_common) (simp add: list_all_iff common_def common_part_def)

subsection \<open>Examples\<close>

lemmas diff_defs = diffLines_def same_line_def trim_def is_space_def
  removed_part_def added_part_def common_part_def changes_def

lemmas rows_defs = getDiffRows_def part_lines_def make_row_def

lemmas store_defs = getDiffRows_h_def read_parts_def alloc_def pop_empty_last_def
  read_lines_def push_row_def make_row_def

lemma getDiffRows_three_parts:
  "getDiffRows three_parts =
     [\<lparr>oldIdx = Some 1, newIdx = None, kind = KDel, row_text = ''Old''\<rparr>,
      \<lparr>oldIdx = None, newIdx = Some 1, kind = KAdd, row_text = ''New''\<rparr>,
      \<lparr>oldIdx = Some 2, newIdx = Some 2, kind = KEqual, row_text = ''Content''\<rparr>]"
  by (simp add: three_parts_def getDiffRows_def part_lines_def make_row_def)

lemma getDiffRows_crlf_parts: "getDiffRows crlf_parts =
     [\<lparr>oldIdx = Some 1, newIdx = None, kind = KDel, row_text = ''Old'' @ [CR]\<rparr>,
      \<lparr>oldIdx = None, newIdx = Some 1, kind = KAdd, row_text = ''New''\<rparr>,
      \<lparr>oldIdx = Some 2, newIdx = Some 2, kind = KEqual, row_text = ''Content''\<rparr>]"
  by (simp add: crlf_parts_def rows_defs)

lemma getDiffRows_added_A_B:
  "getDiffRows [\<lparr>part_value = ''A'' @ [LF] @ ''B'', added = True, removed = False\<rparr>] =
     [\<lparr>oldIdx = None, newIdx = Some 1, kind = KAdd, row_text = ''A''\<rparr>,
      \<lparr>oldIdx = None, newIdx = Some 2, kind = KAdd, row_text = ''B''\<rparr>]"
  by (simp add: rows_defs)

lemma diffLines_lf:
  "diffLines (''Old'' @ [LF] @ ''Content'') (''New'' @ [LF] @ ''Content'') = three_parts"
  by (simp add: diff_defs three_parts_def)

lemma diffLines_crlf:
  "diffLines (''Old'' @ [CR, LF] @ ''Content'') (''New'' @ [LF] @ ''Content'') = crlf_parts"
  by (simp add: diff_defs crlf_parts_def)

lemma diffLines_added_A_B:
  "diffLines [] (''A'' @ [LF] @ ''B'') =
     [\<lparr>part_value = ''A'' @ [LF] @ ''B'', added = True, removed = False\<rparr>]"
  by (simp add: diff_defs)

lemma DiffViewer_rows_lf:
  "DiffViewer_rows (''Old'' @ [LF] @ ''Content'') (''New'' @ [LF] @ ''Content'') =
     [\<lparr>oldIdx = Some 1, newIdx = None, kind = KDel, row_text = ''Old''\<rparr>,
      \<lparr>oldIdx = None, newIdx = Some 1, kind = KAdd, row_text = ''New''\<rparr>,
      \<lparr>oldIdx = Some 2, newIdx = Some 2, kind = KEqual, row_text = ''Content''\<rparr>]"
  by (simp only: DiffViewer_rows_def diffLines_lf getDiffRows_three_parts)

lemma DiffViewer_rows_crlf:
  "DiffViewer_rows (''Old'' @ [CR, LF] @ ''Content'') (''New'' @ [LF] @ ''Content'') =
     [\<lparr>oldIdx = Some 1, newIdx = None, kind = KDel, row_text = ''Old'' @ [CR]\<rparr>,
      \<lparr>oldIdx = None, newIdx = Some 1, kind = KAdd, row_text = ''New''\<rparr>,
      \<lparr>oldIdx = Some 2, newIdx = Some 2, kind = KEqual, row_text = ''Content''\<rparr>]"
  by (simp only: DiffViewer_rows_def diffLines_crlf getDiffRows_crlf_parts)

lemma DiffViewer_rows_added_A_B:
  "DiffViewer_rows [] (''A'' @ [LF] @ ''B'') =
     [\<lparr>oldIdx = None, newIdx = Some 1, kind = KAdd, row_text = ''A''\<rparr>,
      \<lparr>oldIdx = None, newIdx = Some 2, kind = KAdd, row_text = ''B''\<rparr>]"
  by (simp only: DiffViewer_rows_def diffLines_added_A_B getDiffRows_added_A_B)

lemma DiffViewer_rows_Content:
  "DiffViewer_rows ''Content'' ''Content'' =
     [\<lparr>oldIdx = Some 1, newIdx = Some 1, kind = KEqual, row_text = ''Content''\<rparr>]"
  by (simp add: DiffViewer_rows_def diff_defs rows_defs)

lemma run_three: "getDiffRows_h 0 [PartArr three_parts] =
  Some (1, [PartArr three_parts, RowArr (getDiffRows three_parts),
            StrArr [''Old''], StrArr [''New''], StrArr [''Content'']])"
  by (simp add: getDiffRows_three_parts) (simp add: three_parts_def store_defs)

lemma run_three_again: "getDiffRows_h 0 [PartArr three_parts, RowArr (getDiffRows three_parts),
            StrArr [''Old''], StrArr [''New''], StrArr [''Content'']] =
  Some (5, [PartArr three_parts, RowArr (getDiffRows three_parts),
            StrArr [''Old''], StrArr [''New''], StrArr [''Content''],
            RowArr (getDiffRows three_parts),
            StrArr [''Old''], StrArr [''New''], StrArr [''Content'']])"
  by (simp add: getDiffRows_three_parts) (simp add: three_parts_def store_defs)

section \<open>Properties of \<^verbatim>\<open>getDiffRows\<close> for every diff result\<close>

text \<open>
  C2. Whatever parts the line diff returns, the \<open>oldIdx\<close> values of the rows that have
  one are strictly increasing in row order, and so are the \<open>newIdx\<close> values of the rows
  that have one.
\<close>

theorem indices_strictly_increasing:
  "sorted_wrt (<) (old_indices (getDiffRows lineDiff)) \<and>
   sorted_wrt (<) (new_indices (getDiffRows lineDiff))"
  by (simp only: old_indices_getDiffRows new_indices_getDiffRows sorted_wrt_upt)

text \<open>
  C3. Every row of \<^verbatim>\<open>getDiffRows\<close> has the indices of its kind: an added row has no
  \<open>oldIdx\<close> and has a \<open>newIdx\<close>, a removed row has no \<open>newIdx\<close> and has an \<open>oldIdx\<close>,
  an unchanged row has both; no row lacks both.
\<close>

theorem row_indices_match_kind:
  "\<forall>r \<in> set (getDiffRows lineDiff).
     (kind r = KAdd \<longrightarrow> oldIdx r = None \<and> newIdx r \<noteq> None) \<and>
     (kind r = KDel \<longrightarrow> newIdx r = None \<and> oldIdx r \<noteq> None) \<and>
     (kind r = KEqual \<longrightarrow> oldIdx r \<noteq> None \<and> newIdx r \<noteq> None) \<and>
     \<not> (oldIdx r = None \<and> newIdx r = None)"
  unfolding getDiffRows_part_rows using row_shape_part_rows by blast

theorem row_indices_match_kind_witness:
  "(\<exists>r \<in> set (getDiffRows three_parts).
      kind r = KAdd \<and> oldIdx r = None \<and> newIdx r \<noteq> None) \<and>
   (\<exists>r \<in> set (getDiffRows three_parts).
      kind r = KDel \<and> newIdx r = None \<and> oldIdx r \<noteq> None) \<and>
   (\<exists>r \<in> set (getDiffRows three_parts).
      kind r = KEqual \<and> oldIdx r \<noteq> None \<and> newIdx r \<noteq> None)"
  using row_indices_match_kind [of three_parts]
  by (simp add: getDiffRows_three_parts)

text \<open>
  C9. Whatever parts the line diff returns, the \<open>oldIdx\<close> values that are present are
  exactly 1, 2, ..., K in row order, where K is the number of rows with an \<open>oldIdx\<close>;
  the \<open>newIdx\<close> values that are present are exactly 1, 2, ..., M likewise.
\<close>

theorem indices_contiguous_from_one:
  "old_indices (getDiffRows lineDiff)
     = [1 ..< Suc (length (filter (\<lambda>r. oldIdx r \<noteq> None) (getDiffRows lineDiff)))] \<and>
   new_indices (getDiffRows lineDiff)
     = [1 ..< Suc (length (filter (\<lambda>r. newIdx r \<noteq> None) (getDiffRows lineDiff)))]"
  by (simp only: count_old_getDiffRows count_new_getDiffRows old_indices_getDiffRows
        new_indices_getDiffRows plus_1_eq_Suc)

text \<open>
  C10. A part whose text is the empty string contributes no row: the rows of a diff
  result with such a part are the rows of the result without it. So a diff result made of
  empty parts only (the empty result among them) gives no row, and the rows for two empty
  contents are empty.
\<close>

theorem empty_part_gives_no_row:
  "(part_value p = [] \<longrightarrow> getDiffRows (ps @ p # qs) = getDiffRows (ps @ qs)) \<and>
   ((\<forall>p \<in> set lineDiff. part_value p = []) \<longrightarrow> getDiffRows lineDiff = []) \<and>
   DiffViewer_rows [] [] = []"
proof (intro conjI impI)
  assume "part_value p = []"
  then show "getDiffRows (ps @ p # qs) = getDiffRows (ps @ qs)"
    by (simp add: getDiffRows_def part_loop_append part_lines_Nil)
next
  assume "\<forall>p \<in> set lineDiff. part_value p = []"
  then show "getDiffRows lineDiff = []"
    by (simp only: getDiffRows_part_rows part_rows_empty_values)
next
  show "DiffViewer_rows [] [] = []"
    by (simp add: DiffViewer_rows_def diffLines_def getDiffRows_def)
qed

theorem empty_part_gives_no_row_witness:
  "part_value empty_common = [] \<and>
   getDiffRows (take 1 three_parts @ empty_common # drop 1 three_parts)
     = getDiffRows three_parts \<and>
   getDiffRows three_parts \<noteq> [] \<and>
   getDiffRows [empty_common] = []"
  using empty_part_gives_no_row
    [of empty_common "take 1 three_parts" "drop 1 three_parts" "[empty_common]"]
  by (simp add: getDiffRows_three_parts) (simp add: empty_common_def three_parts_def)

text \<open>
  C8. \<^verbatim>\<open>getDiffRows\<close> is deterministic and writes nothing but its own arrays. On every
  store that holds a diff result at \<open>lineDiff\<close>, a first call and a second call on the
  store the first one leaves both return; each returns the address of a new array whose
  rows are \<open>getDiffRows\<close> of that diff result, so the two row sequences are identical;
  and each leaves every object that was in the store as it was (the diff result, and for
  the second call the rows of the first).
\<close>

theorem getDiffRows_repeatable_and_frame:
  assumes "lineDiff < length h" and "h ! lineDiff = PartArr ps"
  shows "\<exists>rows1 h1 rows2 h2.
           getDiffRows_h lineDiff h = Some (rows1, h1) \<and>
           getDiffRows_h lineDiff h1 = Some (rows2, h2) \<and>
           take (length h) h1 = h \<and> take (length h1) h2 = h1 \<and>
           length h \<le> rows1 \<and> rows1 < length h1 \<and>
           length h1 \<le> rows2 \<and> rows2 < length h2 \<and>
           h1 ! rows1 = RowArr (getDiffRows ps) \<and>
           h2 ! rows2 = RowArr (getDiffRows ps)"
proof -
  from getDiffRows_h_correct [OF assms] obtain rows1 h1 where
    run1: "getDiffRows_h lineDiff h = Some (rows1, h1)" and
    fresh1: "length h \<le> rows1" "rows1 < length h1" and
    res1: "h1 ! rows1 = RowArr (getDiffRows ps)" and
    frame1: "take (length h) h1 = h"
    by blast
  have len: "length h \<le> length h1" using fresh1 by simp
  have "h1 ! lineDiff = take (length h) h1 ! lineDiff"
    using assms(1) by simp
  then have ld1: "h1 ! lineDiff = PartArr ps"
    using frame1 assms(2) by simp
  have lt1: "lineDiff < length h1" using assms(1) len by simp
  from getDiffRows_h_correct [OF lt1 ld1] obtain rows2 h2 where
    run2: "getDiffRows_h lineDiff h1 = Some (rows2, h2)" and
    fresh2: "length h1 \<le> rows2" "rows2 < length h2" and
    res2: "h2 ! rows2 = RowArr (getDiffRows ps)" and
    frame2: "take (length h1) h2 = h1"
    by blast
  from run1 run2 frame1 frame2 fresh1 fresh2 res1 res2 show ?thesis by blast
qed

theorem getDiffRows_repeatable_and_frame_witness:
  "(0::nat) < length [PartArr three_parts] \<and>
   [PartArr three_parts] ! 0 = PartArr three_parts \<and>
   getDiffRows_h 0 [PartArr three_parts] =
     Some (1, [PartArr three_parts, RowArr (getDiffRows three_parts),
               StrArr [''Old''], StrArr [''New''], StrArr [''Content'']]) \<and>
   getDiffRows_h 0 [PartArr three_parts, RowArr (getDiffRows three_parts),
                    StrArr [''Old''], StrArr [''New''], StrArr [''Content'']] =
     Some (5, [PartArr three_parts, RowArr (getDiffRows three_parts),
               StrArr [''Old''], StrArr [''New''], StrArr [''Content''],
               RowArr (getDiffRows three_parts),
               StrArr [''Old''], StrArr [''New''], StrArr [''Content'']])"
  using getDiffRows_repeatable_and_frame [of 0 "[PartArr three_parts]" three_parts]
  by (simp add: run_three run_three_again)

section \<open>Properties of the rows of two contents\<close>

text \<open>
  C1, as the code has it. The number of rows with an \<open>oldIdx\<close> is the number of lines of
  the old content, and the number of rows with a \<open>newIdx\<close> the number of lines of the new
  content, where the lines of a content are counted the way \<^verbatim>\<open>getDiffRows\<close> counts the
  lines of a part: split at \<^verbatim>\<open>\n\<close> alone, one empty last piece dropped. In that
  count the empty text has no line, a line feed at the end opens no line, and a carriage
  return ends no line.
\<close>

theorem row_counts_are_line_counts:
  "length (filter (\<lambda>r. oldIdx r \<noteq> None) (DiffViewer_rows oldContent newContent))
     = length (part_lines oldContent) \<and>
   length (filter (\<lambda>r. newIdx r \<noteq> None) (DiffViewer_rows oldContent newContent))
     = length (part_lines newContent)"
proof -
  have "length (filter (\<lambda>r. oldIdx r \<noteq> None) (DiffViewer_rows oldContent newContent))
          = length (tokenize oldContent)"
    by (simp only: DiffViewer_rows_def count_old_getDiffRows diffLines_steps)
  moreover
  have "length (filter (\<lambda>r. newIdx r \<noteq> None) (DiffViewer_rows oldContent newContent))
          = length (tokenize newContent)"
    by (simp only: DiffViewer_rows_def count_new_getDiffRows diffLines_steps)
  ultimately show ?thesis by (simp only: length_part_lines)
qed

text \<open>
  C1, as the claim states it, fails: for the old content \<^verbatim>\<open>""\<close> and the new content
  \<^verbatim>\<open>"A\nB"\<close> no row has an \<open>oldIdx\<close>, and the old content, normalized and split at
  \<^verbatim>\<open>\n\<close>, has one line.
\<close>

theorem row_count_is_not_normalized_line_count:
  "length (filter (\<lambda>r. oldIdx r \<noteq> None) (DiffViewer_rows [] (''A'' @ [LF] @ ''B'')))
     \<noteq> length (content_lines [])"
  by (simp only: DiffViewer_rows_added_A_B)
     (simp add: content_lines_def normalizeText_def replace_cr_def)

text \<open>
  C4. For the old content \<^verbatim>\<open>"Old\nContent"\<close> and the new content
  \<^verbatim>\<open>"New\nContent"\<close> the rows are, in this order: a removed row "Old" with \<open>oldIdx\<close> 1
  and no \<open>newIdx\<close>, an added row "New" with \<open>newIdx\<close> 1 and no \<open>oldIdx\<close>, and an
  unchanged row "Content" with \<open>oldIdx\<close> 2 and \<open>newIdx\<close> 2.
\<close>

theorem rows_of_old_and_new_content:
  "DiffViewer_rows (''Old'' @ [LF] @ ''Content'') (''New'' @ [LF] @ ''Content'') =
     [\<lparr>oldIdx = Some 1, newIdx = None, kind = KDel, row_text = ''Old''\<rparr>,
      \<lparr>oldIdx = None, newIdx = Some 1, kind = KAdd, row_text = ''New''\<rparr>,
      \<lparr>oldIdx = Some 2, newIdx = Some 2, kind = KEqual, row_text = ''Content''\<rparr>]"
  by (simp only: DiffViewer_rows_def diffLines_lf getDiffRows_three_parts)

text \<open>
  C5. For a non-empty text as both contents there are rows, every row is unchanged, and
  every row has the same \<open>oldIdx\<close> and \<open>newIdx\<close>.
\<close>

theorem identical_contents_all_unchanged:
  assumes "t \<noteq> []"
  shows "DiffViewer_rows t t \<noteq> [] \<and>
         (\<forall>r \<in> set (DiffViewer_rows t t). kind r = KEqual \<and> oldIdx r = newIdx r)"
proof
  from assms show "DiffViewer_rows t t \<noteq> []"
    by (rule DiffViewer_rows_nonempty)
next
  show "\<forall>r \<in> set (DiffViewer_rows t t). kind r = KEqual \<and> oldIdx r = newIdx r"
    unfolding DiffViewer_rows_def getDiffRows_part_rows
    using part_rows_common [OF diffLines_same_common] by blast
qed

theorem identical_contents_all_unchanged_witness:
  "''Content'' \<noteq> [] \<and>
   DiffViewer_rows ''Content'' ''Content'' =
     [\<lparr>oldIdx = Some 1, newIdx = Some 1, kind = KEqual, row_text = ''Content''\<rparr>]"
  using identical_contents_all_unchanged [of "''Content''"]
  by (simp add: DiffViewer_rows_Content)

text \<open>
  C6. For the old content \<^verbatim>\<open>""\<close> and the new content \<^verbatim>\<open>"A\nB"\<close> there are exactly
  two rows, both added, with \<open>newIdx\<close> 1 and 2 and no \<open>oldIdx\<close>.
\<close>

theorem rows_of_pure_addition:
  "DiffViewer_rows [] (''A'' @ [LF] @ ''B'') =
     [\<lparr>oldIdx = None, newIdx = Some 1, kind = KAdd, row_text = ''A''\<rparr>,
      \<lparr>oldIdx = None, newIdx = Some 2, kind = KAdd, row_text = ''B''\<rparr>]"
  by (simp only: DiffViewer_rows_def diffLines_added_A_B getDiffRows_added_A_B)

text \<open>
  C7, as the code has it. For the old content \<^verbatim>\<open>"Old\r\nContent"\<close> and the new
  content \<^verbatim>\<open>"New\nContent"\<close> the rows have the kinds and indices of the rows for
  \<^verbatim>\<open>"Old\nContent"\<close> and \<^verbatim>\<open>"New\nContent"\<close>, and the same texts but for the removed
  row, whose text keeps the carriage return: the diff runs on the contents as they are,
  and the parts are split at \<^verbatim>\<open>\n\<close> only.
\<close>

theorem crlf_rows_same_kinds_and_indices:
  "map (\<lambda>r. (kind r, oldIdx r, newIdx r))
       (DiffViewer_rows (''Old'' @ [CR, LF] @ ''Content'') (''New'' @ [LF] @ ''Content''))
     = map (\<lambda>r. (kind r, oldIdx r, newIdx r))
         (DiffViewer_rows (''Old'' @ [LF] @ ''Content'') (''New'' @ [LF] @ ''Content'')) \<and>
   map row_text
       (DiffViewer_rows (''Old'' @ [CR, LF] @ ''Content'') (''New'' @ [LF] @ ''Content''))
     = [''Old'' @ [CR], ''New'', ''Content''] \<and>
   map row_text
       (DiffViewer_rows (''Old'' @ [LF] @ ''Content'') (''New'' @ [LF] @ ''Content''))
     = [''Old'', ''New'', ''Content'']"
  by (simp only: DiffViewer_rows_crlf DiffViewer_rows_lf) simp

text \<open>
  C7, as the claim states it, fails: the two row sequences differ (in the text of the
  first row).
\<close>

theorem crlf_rows_differ_in_text:
  "DiffViewer_rows (''Old'' @ [CR, LF] @ ''Content'') (''New'' @ [LF] @ ''Content'')
     \<noteq> DiffViewer_rows (''Old'' @ [LF] @ ''Content'') (''New'' @ [LF] @ ''Content'')"
  by (simp only: DiffViewer_rows_crlf DiffViewer_rows_lf) simp

end
